theory Spec2Isabelle
  imports Complex_Main "HOL-Library.Word"
begin

section \<open>Strings\<close>

text \<open>
  JavaScript strings are modelled as HOL strings, one \<open>char\<close> per UTF-16 code unit, for
  the code units below 256 (ASCII and Latin-1). Every keyword the program compares against
  is ASCII. \<open>String.prototype.toLowerCase\<close> folds \<open>A\<close>..\<open>Z\<close> and the Latin-1 capitals
  (192..222 without the multiplication sign 215) by adding 32.
\<close>

definition lower_char :: "char \<Rightarrow> char" where
  "lower_char c =
     (let n = of_char c :: nat
      in if (65 \<le> n \<and> n \<le> 90) \<or> (192 \<le> n \<and> n \<le> 222 \<and> n \<noteq> 215)
         then char_of (n + 32) else c)"

definition toLowerCase :: "string \<Rightarrow> string" where
  "toLowerCase s = map lower_char s"

text \<open>\<open>s.startsWith(k)\<close> and \<open>s.includes(k)\<close>.\<close>

fun startsWith :: "string \<Rightarrow> string \<Rightarrow> bool" where
  "startsWith s [] = True"
| "startsWith [] (k # ks) = False"
| "startsWith (c # cs) (k # ks) = (c = k \<and> startsWith cs ks)"

fun includes_str :: "string \<Rightarrow> string \<Rightarrow> bool" where
  "includes_str [] k = (k = [])"
| "includes_str (c # cs) k = (startsWith (c # cs) k \<or> includes_str cs k)"

section \<open>Error Classifier: \<open>categorizeError\<close> (services/proxy.service.ts)\<close>

text \<open>
  The value caught by \<open>catch (error)\<close> has type \<open>unknown\<close>. The classifier looks at it
  only through \<open>error instanceof Error\<close>, \<open>error.name\<close> and \<open>error.message\<close>, so a
  thrown value is either an \<open>Error\<close> instance with its name and message, or any other
  value.
\<close>

datatype thrown = ErrorInstance (err_name: string) (err_message: string) | NotAnError

datatype error_type = Timeout | Network | Dns | Ssl | Unknown

record RequestError =
  re_type :: error_type
  re_message :: string

definition categorizeError :: "thrown \<Rightarrow> RequestError" where
  "categorizeError error =
     (case error of
        ErrorInstance name msg \<Rightarrow>
          (let message = toLowerCase msg
           in if name = ''AbortError'' \<or> includes_str message ''abort''
              then \<lparr>re_type = Timeout, re_message = ''Request timed out''\<rparr>
              else if includes_str message ''dns'' \<or> includes_str message ''getaddrinfo''
                      \<or> includes_str message ''resolve''
              then \<lparr>re_type = Dns, re_message = ''DNS lookup failed: '' @ msg\<rparr>
              else if includes_str message ''ssl'' \<or> includes_str message ''tls''
                      \<or> includes_str message ''certificate''
              then \<lparr>re_type = Ssl, re_message = ''SSL/TLS error: '' @ msg\<rparr>
              else if includes_str message ''network'' \<or> includes_str message ''connect''
                      \<or> includes_str message ''econnrefused'' \<or> includes_str message ''econnreset''
                      \<or> includes_str message ''enotfound''
              then \<lparr>re_type = Network, re_message = ''Network error: '' @ msg\<rparr>
              else \<lparr>re_type = Unknown, re_message = msg\<rparr>)
      | NotAnError \<Rightarrow> \<lparr>re_type = Unknown, re_message = ''An unknown error occurred''\<rparr>)"

text \<open>The keyword groups of the classifier, as one table.\<close>

definition keyword_table :: "string list" where
  "keyword_table = [''abort'', ''dns'', ''getaddrinfo'', ''resolve'', ''ssl'', ''tls'',
     ''certificate'', ''network'', ''connect'', ''econnrefused'', ''econnreset'',
     ''enotfound'']"

definition matches_keyword :: "thrown \<Rightarrow> bool" where
  "matches_keyword error =
     (case error of
        ErrorInstance name msg \<Rightarrow>
          name = ''AbortError'' \<or> list_ex (includes_str (toLowerCase msg)) keyword_table
      | NotAnError \<Rightarrow> False)"

section \<open>Bounded Body Reader: \<open>readResponseBody\<close> (services/proxy.service.ts)\<close>

type_synonym byte = "8 word"

text \<open>\<open>const MAX_BODY_SIZE = 10 * 1024 * 1024\<close>\<close>

definition MAX_BODY_SIZE :: nat where
  "MAX_BODY_SIZE = 10 * 1024 * 1024"

text \<open>
  The body of a response is a stream read through \<open>reader.read()\<close>: each read yields a
  chunk (\<open>{done: false, value}\<close>), the end of the stream (\<open>{done: true}\<close>), or rejects.
  Streams are finite: the transport ends, fails or is cut after finitely many chunks.
\<close>

datatype stream = Done | Chunk "byte list" stream | ReadError thrown

text \<open>
  A number as \<open>parseInt\<close> returns it: \<open>NaN\<close> or an integer. (Beyond \<open>2^53\<close> JavaScript
  rounds to the nearest double; the model keeps the exact integer.)
\<close>

datatype jsnum = NaN | Num int

definition is_space :: "char \<Rightarrow> bool" where
  "is_space c = (c \<in> set [CHR 0x09, CHR 0x0A, CHR 0x0B, CHR 0x0C, CHR 0x0D, CHR 0x20, CHR 0xA0])"

definition is_digit :: "char \<Rightarrow> bool" where
  "is_digit c = (48 \<le> (of_char c :: nat) \<and> (of_char c :: nat) \<le> 57)"

definition digits_value :: "string \<Rightarrow> int" where
  "digits_value ds = foldl (\<lambda>acc c. 10 * acc + (int (of_char c) - 48)) 0 ds"

text \<open>
  \<open>parseInt(s, 10)\<close>: skip leading white space, read an optional sign, then the longest
  run of decimal digits; \<open>NaN\<close> when there is no digit.
\<close>

definition parseInt :: "string \<Rightarrow> jsnum" where
  "parseInt s =
     (let s1 = dropWhile is_space s;
          sgn_rest = (case s1 of
                        c # r \<Rightarrow> if c = CHR ''-'' then (- 1, r)
                                 else if c = CHR ''+'' then (1, r) else (1, s1)
                      | [] \<Rightarrow> (1, s1));
          ds = takeWhile is_digit (snd sgn_rest)
      in if ds = [] then NaN else Num (fst sgn_rest * digits_value ds))"

text \<open>
  A fetch \<open>Response\<close>. \<open>rsp_headers\<close> is the list the \<open>Headers\<close> object iterates over
  (names in lower case, one entry per name); \<open>rsp_body\<close> is \<open>None\<close> for a null body.
\<close>

record Response =
  rsp_status :: int
  rsp_statusText :: string
  rsp_headers :: "(string \<times> string) list"
  rsp_body :: "stream option"

text \<open>\<open>response.headers.get(name)\<close>: the lookup ignores the case of \<open>name\<close>.\<close>

definition headers_get :: "(string \<times> string) list \<Rightarrow> string \<Rightarrow> string option" where
  "headers_get hs name = map_of hs (toLowerCase name)"

text \<open>
  \<open>combined.set(src, offset)\<close> on a \<open>Uint8Array\<close>: a \<open>RangeError\<close> when the source does
  not fit, else the bytes from \<open>offset\<close> on are overwritten.
\<close>

definition RangeError :: thrown where
  "RangeError = ErrorInstance ''RangeError'' ''offset is out of bounds''"

definition array_set :: "byte list \<Rightarrow> byte list \<Rightarrow> nat \<Rightarrow> thrown + byte list" where
  "array_set combined src offset =
     (if offset + length src > length combined then Inl RangeError
      else Inr (take offset combined @ src @ drop (offset + length src) combined))"

text \<open>
  The read loop of the short-circuit path:
  \<^verbatim>\<open>while (totalSize < MAX_BODY_SIZE) { const {done, value} = await reader.read();
    if (done) break; chunks.push(value); totalSize += value.length; }\<close>
  It returns the chunks read and \<open>totalSize\<close>, or the error of a rejected read.
\<close>

fun read_loop :: "stream \<Rightarrow> byte list list \<Rightarrow> nat \<Rightarrow> thrown + (byte list list \<times> nat)" where
  "read_loop Done chunks totalSize = Inr (chunks, totalSize)"
| "read_loop (ReadError e) chunks totalSize =
     (if totalSize < MAX_BODY_SIZE then Inl e else Inr (chunks, totalSize))"
| "read_loop (Chunk v rest) chunks totalSize =
     (if totalSize < MAX_BODY_SIZE
      then read_loop rest (chunks @ [v]) (totalSize + length v)
      else Inr (chunks, totalSize))"

text \<open>
  The copy loop:
  \<^verbatim>\<open>for (const chunk of chunks) { const remaining = MAX_BODY_SIZE - offset;
    const toCopy = Math.min(chunk.length, remaining);
    combined.set(chunk.subarray(0, toCopy), offset); offset += toCopy;
    if (offset >= MAX_BODY_SIZE) break; }\<close>
\<close>

fun copy_loop :: "byte list list \<Rightarrow> byte list \<Rightarrow> nat \<Rightarrow> thrown + byte list" where
  "copy_loop [] combined offset = Inr combined"
| "copy_loop (chunk # chunks) combined offset =
     (let remaining = MAX_BODY_SIZE - offset;
          toCopy = min (length chunk) remaining
      in case array_set combined (take toCopy chunk) offset of
           Inl e \<Rightarrow> Inl e
         | Inr combined' \<Rightarrow>
             if offset + toCopy \<ge> MAX_BODY_SIZE then Inr combined'
             else copy_loop chunks combined' (offset + toCopy))"

text \<open>\<open>response.arrayBuffer()\<close>: the whole stream, or the error of a failed read.\<close>

fun arrayBuffer_stream :: "stream \<Rightarrow> thrown + byte list" where
  "arrayBuffer_stream Done = Inr []"
| "arrayBuffer_stream (ReadError e) = Inl e"
| "arrayBuffer_stream (Chunk v rest) =
     (case arrayBuffer_stream rest of Inl e \<Rightarrow> Inl e | Inr bs \<Rightarrow> Inr (v @ bs))"

definition arrayBuffer :: "Response \<Rightarrow> thrown + byte list" where
  "arrayBuffer response =
     (case rsp_body response of None \<Rightarrow> Inr [] | Some s \<Rightarrow> arrayBuffer_stream s)"

text \<open>
  The result of \<open>readResponseBody\<close> before decoding: the bytes handed to
  \<open>new TextDecoder().decode\<close>, the truncation flag and the size.
\<close>

record BodyBytes =
  bb_bytes :: "byte list"
  bb_truncated :: bool
  bb_size :: int

definition over_limit :: "jsnum option \<Rightarrow> bool" where
  \<comment> \<open>\<open>declaredSize && declaredSize > MAX_BODY_SIZE\<close>: \<open>null\<close>, \<open>NaN\<close> and \<open>0\<close> are falsy\<close>
  "over_limit declaredSize =
     (case declaredSize of
        None \<Rightarrow> False
      | Some NaN \<Rightarrow> False
      | Some (Num n) \<Rightarrow> n \<noteq> 0 \<and> n > int MAX_BODY_SIZE)"

definition declared_size :: "Response \<Rightarrow> jsnum option" where
  \<comment> \<open>\<open>contentLength ? parseInt(contentLength, 10) : null\<close>: the empty string is falsy\<close>
  "declared_size response =
     (case headers_get (rsp_headers response) ''content-length'' of
        None \<Rightarrow> None
      | Some contentLength \<Rightarrow> if contentLength = [] then None else Some (parseInt contentLength))"

definition readBodyBytes :: "Response \<Rightarrow> thrown + BodyBytes" where
  "readBodyBytes response =
     (let declaredSize = declared_size response
      in if over_limit declaredSize then
           (case rsp_body response of
              None \<Rightarrow> Inr \<lparr>bb_bytes = [], bb_truncated = False, bb_size = 0\<rparr>
            | Some reader \<Rightarrow>
                (case read_loop reader [] 0 of
                   Inl e \<Rightarrow> Inl e
                 | Inr (chunks, totalSize) \<Rightarrow>
                     (case copy_loop chunks (replicate (min totalSize MAX_BODY_SIZE) 0) 0 of
                        Inl e \<Rightarrow> Inl e
                      | Inr combined \<Rightarrow>
                          Inr \<lparr>bb_bytes = combined, bb_truncated = True,
                               bb_size = (case declaredSize of Some (Num n) \<Rightarrow> n | _ \<Rightarrow> 0)\<rparr>)))
         else
           (case arrayBuffer response of
              Inl e \<Rightarrow> Inl e
            | Inr buf \<Rightarrow>
                let size = length buf
                in if size > MAX_BODY_SIZE
                   then Inr \<lparr>bb_bytes = take MAX_BODY_SIZE buf, bb_truncated = True,
                             bb_size = int size\<rparr>
                   else Inr \<lparr>bb_bytes = buf, bb_truncated = False, bb_size = int size\<rparr>))"

text \<open>
  \<open>readResponseBody\<close>: the three \<open>new TextDecoder().decode(...)\<close> calls turn the bytes
  into the body text. The decoder belongs to the platform and is a parameter; the
  \<open>!reader\<close> path returns the empty string without decoding.
\<close>

record BodyResult =
  br_body :: string
  br_truncated :: bool
  br_size :: int

definition readResponseBody :: "(byte list \<Rightarrow> string) \<Rightarrow> Response \<Rightarrow> thrown + BodyResult" where
  "readResponseBody decode response =
     (case readBodyBytes response of
        Inl e \<Rightarrow> Inl e
      | Inr b \<Rightarrow>
          Inr \<lparr>br_body = (if over_limit (declared_size response) \<and> rsp_body response = None
                           then [] else decode (bb_bytes b)),
               br_truncated = bb_truncated b, br_size = bb_size b\<rparr>)"

section \<open>Proxy Execution Engine: \<open>executeProxyRequest\<close> (services/proxy.service.ts)\<close>

datatype HttpMethod = GET | POST | PUT | PATCH | DELETE | HEAD | OPTIONS

text \<open>
  \<open>ProxyRequest\<close> (models/schema.ts). \<open>req_headers\<close> is \<open>None\<close> for the value
  \<open>request.headers ?? {}\<close> guards against; \<open>req_body\<close> is \<open>None\<close> for \<open>null\<close> and
  \<open>undefined\<close>.
\<close>

record ProxyRequest =
  req_method :: HttpMethod
  req_url :: string
  req_headers :: "(string \<times> string) list option"
  req_body :: "string option"
  req_timeout :: int

text \<open>
  The options handed to \<open>fetch\<close>. \<open>ri_signal\<close> stands for \<open>controller.signal\<close>: the
  delay after which the timer aborts the controller, \<open>None\<close> when no timer is set.
\<close>

record RequestInit =
  ri_method :: HttpMethod
  ri_headers :: "(string \<times> string) list"
  ri_signal :: "int option"
  ri_body :: "string option"

record Timing =
  tm_total :: int
  tm_firstByte :: "int option"
  tm_download :: "int option"

record ProxyResponse =
  pr_status :: int
  pr_statusText :: string
  pr_headers :: "string \<rightharpoonup> string"
  pr_body :: string
  pr_bodyTruncated :: bool
  pr_size :: int
  pr_timing :: Timing
  pr_error :: "RequestError option"

text \<open>
  What the engine takes from the platform: \<open>fetch\<close> (it resolves with a response or
  rejects; a call that never settles has no result and is not modelled), the readings
  of \<open>performance.now()\<close> in the order they are taken, the \<open>TextDecoder\<close>, and the
  \<open>URL\<close> parser behind \<open>z.string().url()\<close>.
\<close>

record runtime =
  rt_fetch :: "string \<Rightarrow> RequestInit \<Rightarrow> thrown + Response"
  rt_now :: "nat \<Rightarrow> real"
  rt_decode :: "byte list \<Rightarrow> string"
  rt_is_url :: "string \<Rightarrow> bool"

definition Math_round :: "real \<Rightarrow> int" where
  "Math_round x = \<lfloor>x + 1 / 2\<rfloor>"

text \<open>Lines 38-52: the timer and the fetch options.\<close>

definition fetchOptions :: "ProxyRequest \<Rightarrow> RequestInit" where
  "fetchOptions request =
     \<lparr>ri_method = req_method request,
      ri_headers = (case req_headers request of None \<Rightarrow> [] | Some h \<Rightarrow> h),
      ri_signal = (if req_timeout request > 0 then Some (req_timeout request) else None),
      ri_body = (case req_body request of
                   None \<Rightarrow> None
                 | Some b \<Rightarrow> if b \<noteq> [] \<and> req_method request \<notin> set [GET, HEAD]
                             then Some b else None)\<rparr>"

text \<open>
  The \<open>try\<close> block. It returns the outbound calls it made, the value of the variable
  \<open>firstByteTime\<close> when it is left, and its outcome: the response it returns or the
  value thrown inside it. \<open>headers[key] = value\<close> stores the value under the key, the
  last assignment winning (the backend runs on Deno, where \<open>__proto__\<close> is a key as any
  other).
\<close>

definition try_block ::
  "runtime \<Rightarrow> ProxyRequest \<Rightarrow> real \<Rightarrow>
     (string \<times> RequestInit) list \<times> real option \<times> (thrown + ProxyResponse)" where
  "try_block rt request startTime =
     (let options = fetchOptions request;
          calls = [(req_url request, options)]
      in case rt_fetch rt (req_url request) options of
           Inl e \<Rightarrow> (calls, None, Inl e)
         | Inr response \<Rightarrow>
             let firstByteTime = rt_now rt 1
             in (case readResponseBody (rt_decode rt) response of
                   Inl e \<Rightarrow> (calls, Some firstByteTime, Inl e)
                 | Inr r \<Rightarrow>
                     let endTime = rt_now rt 2;
                         timing = \<lparr>tm_total = Math_round (endTime - startTime),
                                   tm_firstByte = Some (Math_round (firstByteTime - startTime)),
                                   tm_download = Some (Math_round (endTime - firstByteTime))\<rparr>;
                         headers = foldl (\<lambda>h (key, val). h(key \<mapsto> val)) Map.empty
                                     (rsp_headers response)
                     in (calls, Some firstByteTime,
                         Inr \<lparr>pr_status = rsp_status response,
                              pr_statusText = rsp_statusText response,
                              pr_headers = headers,
                              pr_body = br_body r,
                              pr_bodyTruncated = br_truncated r,
                              pr_size = br_size r,
                              pr_timing = timing,
                              pr_error = None\<rparr>)))"

text \<open>
  The \<open>catch\<close> block. \<open>firstByteTime ? ... : undefined\<close> is falsy for \<open>undefined\<close> and
  for \<open>0\<close>. The clock has been read once before a failed fetch and twice before a
  failed body read.
\<close>

definition catch_block :: "runtime \<Rightarrow> real \<Rightarrow> real option \<Rightarrow> thrown \<Rightarrow> ProxyResponse" where
  "catch_block rt startTime firstByteTime error =
     (let endTime = rt_now rt (case firstByteTime of None \<Rightarrow> 1 | Some _ \<Rightarrow> 2);
          timing = \<lparr>tm_total = Math_round (endTime - startTime),
                    tm_firstByte = (case firstByteTime of
                                      None \<Rightarrow> None
                                    | Some t \<Rightarrow> if t \<noteq> 0 then Some (Math_round (t - startTime))
                                               else None),
                    tm_download = None\<rparr>
      in \<lparr>pr_status = 0,
          pr_statusText = [],
          pr_headers = Map.empty,
          pr_body = [],
          pr_bodyTruncated = False,
          pr_size = 0,
          pr_timing = timing,
          pr_error = Some (categorizeError error)\<rparr>)"

text \<open>
  \<open>executeProxyRequest\<close>: the promise it returns resolves (\<open>Inr\<close>) or rejects (\<open>Inl\<close>);
  the first component lists the outbound calls made.
\<close>

definition executeProxyRequest ::
  "runtime \<Rightarrow> ProxyRequest \<Rightarrow> (string \<times> RequestInit) list \<times> (thrown + ProxyResponse)" where
  "executeProxyRequest rt request =
     (let startTime = rt_now rt 0
      in case try_block rt request startTime of
           (calls, firstByteTime, Inr response) \<Rightarrow> (calls, Inr response)
         | (calls, firstByteTime, Inl error) \<Rightarrow>
             (calls, Inr (catch_block rt startTime firstByteTime error)))"

section \<open>Proxy boundary: \<open>ProxyRequestSchema\<close> (models/schema.ts) and the route (routes/proxy.ts)\<close>

text \<open>A parsed JSON value, as \<open>c.req.json()\<close> returns it.\<close>

datatype json =
  JNull | JBool bool | JNumber real | JString string | JArray "json list"
  | JObject "(string \<times> json) list"

definition field :: "json \<Rightarrow> string \<Rightarrow> json option" where
  "field j k = (case j of JObject fs \<Rightarrow> map_of fs k | _ \<Rightarrow> None)"

text \<open>\<open>HttpMethodSchema = z.enum(['GET', 'POST', 'PUT', 'PATCH', 'DELETE', 'HEAD', 'OPTIONS'])\<close>\<close>

definition HttpMethodSchema :: "json option \<Rightarrow> HttpMethod option" where
  "HttpMethodSchema v =
     (case v of
        Some (JString s) \<Rightarrow>
          map_of [(''GET'', GET), (''POST'', POST), (''PUT'', PUT), (''PATCH'', PATCH),
                  (''DELETE'', DELETE), (''HEAD'', HEAD), (''OPTIONS'', OPTIONS)] s
      | _ \<Rightarrow> None)"

text \<open>\<open>url: z.string().url()\<close>\<close>

definition url_schema :: "(string \<Rightarrow> bool) \<Rightarrow> json option \<Rightarrow> string option" where
  "url_schema is_url v =
     (case v of Some (JString s) \<Rightarrow> if is_url s then Some s else None | _ \<Rightarrow> None)"

text \<open>\<open>headers: z.record(z.string(), z.string()).optional().default({})\<close>\<close>

fun string_values :: "(string \<times> json) list \<Rightarrow> (string \<times> string) list option" where
  "string_values [] = Some []"
| "string_values ((k, JString s) # fs) =
     (case string_values fs of None \<Rightarrow> None | Some r \<Rightarrow> Some ((k, s) # r))"
| "string_values ((k, _) # fs) = None"

definition headers_schema :: "json option \<Rightarrow> (string \<times> string) list option" where
  "headers_schema v =
     (case v of
        None \<Rightarrow> Some []
      | Some (JObject fs) \<Rightarrow> string_values fs
      | _ \<Rightarrow> None)"

text \<open>\<open>body: z.string().nullable().optional()\<close>: the outer option is the validity.\<close>

definition body_schema :: "json option \<Rightarrow> string option option" where
  "body_schema v =
     (case v of
        None \<Rightarrow> Some None
      | Some JNull \<Rightarrow> Some None
      | Some (JString s) \<Rightarrow> Some (Some s)
      | _ \<Rightarrow> None)"

text \<open>\<open>timeout: z.number().int().min(0).max(300000).default(30000)\<close>\<close>

definition timeout_schema :: "json option \<Rightarrow> int option" where
  "timeout_schema v =
     (case v of
        None \<Rightarrow> Some 30000
      | Some (JNumber x) \<Rightarrow>
          if of_int \<lfloor>x\<rfloor> = x \<and> 0 \<le> x \<and> x \<le> 300000 then Some \<lfloor>x\<rfloor> else None
      | _ \<Rightarrow> None)"

text \<open>
  \<open>ProxyRequestSchema.safeParse\<close>: the parsed request, or the paths of the fields that
  failed (the empty path when the payload is not an object).
\<close>

definition is_object :: "json \<Rightarrow> bool" where
  "is_object j = (case j of JObject _ \<Rightarrow> True | _ \<Rightarrow> False)"

definition safeParse :: "(string \<Rightarrow> bool) \<Rightarrow> json \<Rightarrow> string list + ProxyRequest" where
  "safeParse is_url j =
     (if \<not> is_object j then Inl [[]]
      else
        (case (HttpMethodSchema (field j ''method''), url_schema is_url (field j ''url''),
               headers_schema (field j ''headers''), body_schema (field j ''body''),
               timeout_schema (field j ''timeout'')) of
           (Some m, Some u, Some h, Some b, Some t) \<Rightarrow>
             Inr \<lparr>req_method = m, req_url = u, req_headers = Some h, req_body = b,
                  req_timeout = t\<rparr>
         | (m, u, h, b, t) \<Rightarrow>
             Inl ((if m = None then [''method''] else [])
                  @ (if u = None then [''url''] else [])
                  @ (if h = None then [''headers''] else [])
                  @ (if b = None then [''body''] else [])
                  @ (if t = None then [''timeout''] else []))))"

datatype reply_body =
  ErrorBody (eb_error: string) (eb_message: string) (eb_details: "string list option")
  | ResultBody ProxyResponse

record HttpReply =
  hr_status :: nat
  hr_body :: reply_body

definition proxy_error :: "thrown \<Rightarrow> HttpReply" where
  "proxy_error error =
     \<lparr>hr_status = 500,
      hr_body = ErrorBody ''proxy_error''
                  (case error of ErrorInstance name msg \<Rightarrow> msg
                   | NotAnError \<Rightarrow> ''An unexpected error occurred'') None\<rparr>"

text \<open>
  \<open>proxy.post('/', ...)\<close>. The argument is the outcome of \<open>await c.req.json()\<close>; the
  result lists the outbound calls made while the request was handled, and the reply.
\<close>

definition proxy_post ::
  "runtime \<Rightarrow> thrown + json \<Rightarrow> (string \<times> RequestInit) list \<times> HttpReply" where
  "proxy_post rt parsed =
     (case parsed of
        Inl error \<Rightarrow> ([], proxy_error error)
      | Inr body \<Rightarrow>
          (case safeParse (rt_is_url rt) body of
             Inl issues \<Rightarrow>
               ([], \<lparr>hr_status = 400,
                     hr_body = ErrorBody ''validation_error'' ''Invalid request body''
                                 (Some issues)\<rparr>)
           | Inr request \<Rightarrow>
               (case executeProxyRequest rt request of
                  (calls, Inr response) \<Rightarrow>
                    (calls, \<lparr>hr_status = 200, hr_body = ResultBody response\<rparr>)
                | (calls, Inl error) \<Rightarrow> (calls, proxy_error error))))"

section \<open>Request headers: \<open>headersToRecord\<close> (frontend, hooks/useRequest)\<close>

record Header =
  hd_key :: string
  hd_value :: string
  hd_enabled :: bool

text \<open>\<open>String.prototype.trim\<close>: white space is dropped at both ends.\<close>

definition trim :: "string \<Rightarrow> string" where
  "trim s = rev (dropWhile is_space (rev (dropWhile is_space s)))"

text \<open>
  \<open>record[key] = value\<close> on an object created by \<open>{}\<close>, in the browser: the key gets
  the value, the last assignment winning; assigning a string to \<open>__proto__\<close> goes to the
  accessor of \<open>Object.prototype\<close> and creates no property.
\<close>

definition record_set :: "(string \<rightharpoonup> string) \<Rightarrow> string \<Rightarrow> string \<Rightarrow> (string \<rightharpoonup> string)" where
  "record_set r k v = (if k = ''__proto__'' then r else r(k \<mapsto> v))"

text \<open>
  \<^verbatim>\<open>for (const header of headers) {
    if (header.enabled && header.key.trim()) { record[header.key] = header.value; } }\<close>
  The record is the map of its own properties; the empty string is falsy.
\<close>

definition headersToRecord_step :: "(string \<rightharpoonup> string) \<Rightarrow> Header \<Rightarrow> (string \<rightharpoonup> string)" where
  "headersToRecord_step r header =
     (if hd_enabled header \<and> trim (hd_key header) \<noteq> []
      then record_set r (hd_key header) (hd_value header) else r)"

definition headersToRecord :: "Header list \<Rightarrow> (string \<rightharpoonup> string)" where
  "headersToRecord headers = foldl headersToRecord_step Map.empty headers"

section \<open>Active environment: \<open>setActiveEnvironment\<close> (services/db and stores/environment.store)\<close>

record Variable =
  var_key :: string
  var_value :: string
  var_enabled :: bool

record Environment =
  env_id :: string
  env_name :: string
  env_variables :: "Variable list"
  env_isActive :: bool
  env_createdAt :: string
  env_updatedAt :: string
  env_syncProjectId :: "string option"

text \<open>
  The Dexie table \<open>environments: 'id, name, isActive, syncProjectId'\<close>: \<open>id\<close> is the
  primary key, so the table holds at most one row per key.
\<close>

type_synonym env_table = "string \<rightharpoonup> Environment"

text \<open>\<open>db.environments.toCollection().modify({ isActive: false })\<close>\<close>

definition modify_all_inactive :: "env_table \<Rightarrow> env_table" where
  "modify_all_inactive t = (\<lambda>k. map_option (\<lambda>e. e\<lparr>env_isActive := False\<rparr>) (t k))"

text \<open>\<open>db.environments.update(id, { isActive: true })\<close>: nothing happens for a missing key.\<close>

definition update_active :: "string \<Rightarrow> env_table \<Rightarrow> env_table" where
  "update_active key t =
     (case t key of None \<Rightarrow> t | Some e \<Rightarrow> t(key \<mapsto> e\<lparr>env_isActive := True\<rparr>))"

text \<open>
  \<open>setActiveEnvironment\<close> of services/db: the body of the transaction. \<open>if (id)\<close> is
  falsy for \<open>null\<close> and for the empty string.
\<close>

definition setActiveEnvironment :: "string option \<Rightarrow> env_table \<Rightarrow> env_table" where
  "setActiveEnvironment eid t =
     (let t1 = modify_all_inactive t
      in case eid of
           None \<Rightarrow> t1
         | Some i \<Rightarrow> if i \<noteq> [] then update_active i t1 else t1)"

text \<open>The state of the zustand store.\<close>

record EnvironmentState =
  environments :: "Environment list"
  activeEnvironment :: "Environment option"
  loading :: bool
  error :: "string option"

text \<open>
  \<open>useEnvironmentStore.setActiveEnvironment\<close>. The transaction either commits or aborts
  with an error (\<open>db_failure\<close>), leaving the table as it was; on an error the store
  records the message and rethrows.
\<close>

definition error_message :: "thrown \<Rightarrow> string \<Rightarrow> string" where
  \<comment> \<open>\<open>error instanceof Error ? error.message : fallback\<close>\<close>
  "error_message err fallback = (case err of ErrorInstance name msg \<Rightarrow> msg | NotAnError \<Rightarrow> fallback)"

definition store_setActiveEnvironment ::
  "thrown option \<Rightarrow> string option \<Rightarrow> env_table \<times> EnvironmentState \<Rightarrow>
     (thrown + unit) \<times> env_table \<times> EnvironmentState" where
  "store_setActiveEnvironment db_failure eid w =
     (let t = fst w;
          s0 = (snd w)\<lparr>error := None\<rparr>
      in case db_failure of
           Some err \<Rightarrow>
             (Inl err, t,
              s0\<lparr>error := Some (error_message err ''Failed to set active environment'')\<rparr>)
         | None \<Rightarrow>
             let t' = setActiveEnvironment eid t;
                 newActive = (case eid of
                                None \<Rightarrow> None
                              | Some i \<Rightarrow> if i \<noteq> []
                                         then find (\<lambda>env. env_id env = i) (environments s0)
                                         else None)
             in (Inr (), t',
                 s0\<lparr>environments :=
                       map (\<lambda>env. env\<lparr>env_isActive := (Some (env_id env) = eid)\<rparr>)
                         (environments s0),
                    activeEnvironment :=
                       (case newActive of
                          None \<Rightarrow> None
                        | Some e \<Rightarrow> Some (e\<lparr>env_isActive := True\<rparr>))\<rparr>))"

text \<open>The environments of a table or of a list that are active.\<close>

definition active_keys :: "env_table \<Rightarrow> string set" where
  "active_keys t = {k. \<exists>e. t k = Some e \<and> env_isActive e}"

definition active_envs :: "Environment list \<Rightarrow> Environment list" where
  "active_envs es = filter env_isActive es"

section \<open>Change Log: \<open>append\<close>\<close>

datatype entity_type = EnvironmentT | CollectionT | FolderT | RequestT

datatype operation = Create | Update | Delete

text \<open>\<open>SyncChangeSchema\<close> (models/schema.ts).\<close>

record ChangeRecord =
  cr_id :: string
  cr_entityType :: entity_type
  cr_entityId :: string
  cr_operation :: operation
  cr_data :: "string option"
  cr_timestamp :: string
  cr_clientId :: string

datatype append_result = Appended | AlreadyPresent | Conflict

text \<open>
  Modelled from the spec: the sync service that stores the change log (the push
  endpoint behind \<open>api.pushSyncChanges\<close>) is not part of the sources; only the record
  schema and the client call are. Section 4.5: \<open>append\<close> fails only if the record's id
  already exists, and the re-append of an identical record is a no-op, not an error.
\<close>

definition append_change :: "ChangeRecord \<Rightarrow> ChangeRecord list \<Rightarrow> append_result \<times> ChangeRecord list" where
  "append_change r entries =
     (case find (\<lambda>x. cr_id x = cr_id r) entries of
        None \<Rightarrow> (Appended, entries @ [r])
      | Some x \<Rightarrow> if x = r then (AlreadyPresent, entries) else (Conflict, entries))"

definition succeeded :: "append_result \<Rightarrow> bool" where
  "succeeded res = (res \<noteq> Conflict)"

section \<open>Notions used to state the properties\<close>

text \<open>
  An HTTP status code has three digits, so the status of a response that \<open>fetch\<close>
  resolves with is never \<open>0\<close>.
\<close>

definition resolves_with_http_status :: "thrown + Response \<Rightarrow> bool" where
  "resolves_with_http_status outcome =
     (case outcome of Inl e \<Rightarrow> True | Inr response \<Rightarrow> rsp_status response \<noteq> 0)"

text \<open>The three ways in which a payload is malformed.\<close>

definition bad_method :: "json \<Rightarrow> bool" where
  "bad_method j =
     (field j ''method'' \<notin> set (map (\<lambda>s. Some (JString s))
        [''GET'', ''POST'', ''PUT'', ''PATCH'', ''DELETE'', ''HEAD'', ''OPTIONS'']))"

definition bad_url :: "(string \<Rightarrow> bool) \<Rightarrow> json \<Rightarrow> bool" where
  "bad_url is_url j = (case field j ''url'' of Some (JString s) \<Rightarrow> \<not> is_url s | _ \<Rightarrow> True)"

definition bad_timeout :: "json \<Rightarrow> bool" where
  "bad_timeout j =
     (case field j ''timeout'' of Some (JNumber x) \<Rightarrow> x < 0 \<or> x > 300000 | _ \<Rightarrow> False)"

text \<open>The failure of the fetch or of the body read, if there is one.\<close>

definition transport_failure :: "runtime \<Rightarrow> ProxyRequest \<Rightarrow> thrown option" where
  "transport_failure rt request =
     (case rt_fetch rt (req_url request) (fetchOptions request) of
        Inl e \<Rightarrow> Some e
      | Inr response \<Rightarrow>
          (case readResponseBody (rt_decode rt) response of
             Inl e \<Rightarrow> Some e
           | Inr b \<Rightarrow> None))"

text \<open>A row of the headers editor that makes \<open>headersToRecord\<close> store an entry under \<open>k\<close>.\<close>

definition sets_key :: "string \<Rightarrow> Header \<Rightarrow> bool" where
  "sets_key k h =
     (hd_enabled h \<and> trim (hd_key h) \<noteq> [] \<and> hd_key h \<noteq> ''__proto__'' \<and> hd_key h = k)"

text \<open>The bytes a stream delivers before it ends or fails.\<close>

fun stream_bytes :: "stream \<Rightarrow> byte list" where
  "stream_bytes Done = []"
| "stream_bytes (ReadError e) = []"
| "stream_bytes (Chunk v rest) = v @ stream_bytes rest"

text \<open>The declared content length as a number, \<open>0\<close> when none is declared.\<close>

definition declared_length :: "Response \<Rightarrow> int" where
  "declared_length response = (case declared_size response of Some (Num n) \<Rightarrow> n | _ \<Rightarrow> 0)"

text \<open>
  The number of bytes \<open>readResponseBody\<close> has read from the stream when it returns:
  \<open>totalSize\<close> on the short-circuit path, the whole stream otherwise.
\<close>

definition observed_size :: "Response \<Rightarrow> nat" where
  "observed_size response =
     (case rsp_body response of
        None \<Rightarrow> 0
      | Some s \<Rightarrow>
          if over_limit (declared_size response)
          then (case read_loop s [] 0 of Inl e \<Rightarrow> 0 | Inr (chunks, totalSize) \<Rightarrow> totalSize)
          else length (stream_bytes s))"

section \<open>Sample inputs\<close>

definition latin1_decode :: "byte list \<Rightarrow> string" where
  "latin1_decode bs = map (\<lambda>b. char_of (unat b)) bs"

definition sample_response :: Response where
  "sample_response =
     \<lparr>rsp_status = 200, rsp_statusText = ''OK'',
      rsp_headers = [(''content-type'', ''text/plain'')],
      rsp_body = Some (Chunk [104, 105] Done)\<rparr>"

definition http_scheme :: "string \<Rightarrow> bool" where
  "http_scheme s = (startsWith s ''http://'' \<or> startsWith s ''https://'')"

definition sample_runtime :: runtime where
  "sample_runtime =
     \<lparr>rt_fetch = (\<lambda>url options. Inr sample_response),
      rt_now = (\<lambda>k. 10 * real k),
      rt_decode = latin1_decode,
      rt_is_url = http_scheme\<rparr>"

definition timeout_runtime :: runtime where
  "timeout_runtime =
     \<lparr>rt_fetch = (\<lambda>url options. Inl (ErrorInstance ''AbortError'' ''The signal has been aborted'')),
      rt_now = (\<lambda>k. 5000 * real k),
      rt_decode = latin1_decode,
      rt_is_url = http_scheme\<rparr>"

definition broken_body_runtime :: runtime where
  "broken_body_runtime =
     \<lparr>rt_fetch = (\<lambda>url options. Inr (sample_response
                     \<lparr>rsp_body := Some (Chunk [104] (ReadError
                        (ErrorInstance ''TypeError'' ''connection reset by peer'')))\<rparr>)),
      rt_now = (\<lambda>k. 10 * real k),
      rt_decode = latin1_decode,
      rt_is_url = http_scheme\<rparr>"

definition late_payload :: json where
  "late_payload =
     JObject [(''method'', JString ''GET''), (''url'', JString ''https://example.com''),
              (''timeout'', JNumber 300001)]"

definition sample_request :: ProxyRequest where
  "sample_request =
     \<lparr>req_method = GET, req_url = ''https://example.com'', req_headers = Some [],
      req_body = Some ''payload'', req_timeout = 5000\<rparr>"

definition short_response :: Response where
  "short_response =
     \<lparr>rsp_status = 200, rsp_statusText = ''OK'',
      rsp_headers = [(''content-length'', ''20000000'')],
      rsp_body = Some (Chunk [1, 2, 3] Done)\<rparr>"

definition plain_short_response :: Response where
  "plain_short_response =
     \<lparr>rsp_status = 200, rsp_statusText = ''OK'', rsp_headers = [],
      rsp_body = Some (Chunk [1, 2, 3] Done)\<rparr>"


definition large_response :: Response where
  "large_response =
     \<lparr>rsp_status = 200, rsp_statusText = ''OK'',
      rsp_headers = [(''content-type'', ''text/plain'')],
      rsp_body = Some (Chunk (replicate 15728640 0) Done)\<rparr>"

definition mixed_case_rows :: "Header list" where
  "mixed_case_rows =
     [\<lparr>hd_key = ''Accept'', hd_value = ''a'', hd_enabled = True\<rparr>,
      \<lparr>hd_key = ''accept'', hd_value = ''b'', hd_enabled = True\<rparr>]"

definition sample_env :: "string \<Rightarrow> bool \<Rightarrow> Environment" where
  "sample_env i a =
     \<lparr>env_id = i, env_name = i, env_variables = [], env_isActive = a,
      env_createdAt = ''2025-12-05T00:00:00.000Z'', env_updatedAt = ''2025-12-05T00:00:00.000Z'',
      env_syncProjectId = None\<rparr>"

definition sample_table :: env_table where
  "sample_table = [''a'' \<mapsto> sample_env ''a'' True, ''b'' \<mapsto> sample_env ''b'' True]"

definition sample_state :: EnvironmentState where
  "sample_state =
     \<lparr>environments = [sample_env ''a'' True, sample_env ''b'' True],
      activeEnvironment = Some (sample_env ''a'' True), loading = False, error = None\<rparr>"

definition sample_change :: ChangeRecord where
  "sample_change =
     \<lparr>cr_id = ''c1'', cr_entityType = RequestT, cr_entityId = ''e1'', cr_operation = Update,
      cr_data = Some ''{}'', cr_timestamp = ''2025-12-05T00:00:00.000Z'', cr_clientId = ''client-1''\<rparr>"

section \<open>Properties of the Error Classifier\<close>

lemma startsWith_iff: "startsWith s k \<longleftrightarrow> (\<exists>q. s = k @ q)"
  by (induction s k rule: startsWith.induct) auto

lemma includes_str_iff: "includes_str s k \<longleftrightarrow> (\<exists>p q. s = p @ k @ q)"
proof (induction s)
  case Nil
  then show ?case by simp
next
  case (Cons c cs)
  show ?case
  proof
    assume "includes_str (c # cs) k"
    then consider "startsWith (c # cs) k" | "includes_str cs k" by auto
    then show "\<exists>p q. c # cs = p @ k @ q"
    proof cases
      case 1
      then obtain q where "c # cs = k @ q" by (auto simp: startsWith_iff)
      then have "c # cs = [] @ k @ q" by simp
      then show ?thesis by blast
    next
      case 2
      then obtain p q where "cs = p @ k @ q" using Cons.IH by auto
      then have "c # cs = (c # p) @ k @ q" by simp
      then show ?thesis by blast
    qed
  next
    assume "\<exists>p q. c # cs = p @ k @ q"
    then obtain p q where pq: "c # cs = p @ k @ q" by blast
    show "includes_str (c # cs) k"
    proof (cases p)
      case Nil
      then have "startsWith (c # cs) k" using pq by (auto simp: startsWith_iff)
      then show ?thesis by simp
    next
      case (Cons a p')
      then have "cs = p' @ k @ q" using pq by simp
      then have "includes_str cs k" using Cons.IH by blast
      then show ?thesis by simp
    qed
  qed
qed

lemma content_length_lower: "toLowerCase ''content-length'' = ''content-length''"
  by code_simp

text \<open>
  Claim C7. \<open>categorizeError\<close> is total: for every thrown value it returns one of the
  five error types with a message. The type is \<open>unknown\<close> exactly when the value matches
  no keyword group (it is not named \<open>AbortError\<close> and its lower-cased message contains
  none of the keywords), and then an \<open>Error\<close> instance keeps its original message. A
  thrown value that is not an \<open>Error\<close> instance has no message the classifier reads;
  it is classified \<open>unknown\<close> with the fixed message \<open>An unknown error occurred\<close>.
\<close>

theorem categorizeError_total:
  "re_type (categorizeError e) \<in> {Timeout, Network, Dns, Ssl, Unknown}
   \<and> (re_type (categorizeError e) = Unknown \<longleftrightarrow> \<not> matches_keyword e)
   \<and> (\<forall>name msg. e = ErrorInstance name msg \<and> \<not> matches_keyword e \<longrightarrow>
         re_message (categorizeError e) = msg)
   \<and> (e = NotAnError \<longrightarrow>
         re_message (categorizeError e) = ''An unknown error occurred'')"
  by (cases e) (auto simp: categorizeError_def matches_keyword_def keyword_table_def Let_def)

theorem categorizeError_total_witness:
  "\<not> matches_keyword (ErrorInstance ''TypeError'' ''boom'')
   \<and> re_type (categorizeError (ErrorInstance ''TypeError'' ''boom'')) = Unknown
   \<and> re_message (categorizeError (ErrorInstance ''TypeError'' ''boom'')) = ''boom''"
proof -
  have h: "\<not> matches_keyword (ErrorInstance ''TypeError'' ''boom'')"
    by (simp add: matches_keyword_def keyword_table_def toLowerCase_def lower_char_def)
  show ?thesis
    using h categorizeError_total [of "ErrorInstance ''TypeError'' ''boom''"] by simp
qed

section \<open>Properties of the Proxy Execution Engine\<close>

text \<open>
  Claim C8. For a request whose method is GET or HEAD, \<open>executeProxyRequest\<close> makes one
  outbound call, with the options built from the request, and these options carry no
  body, whatever the body field of the request holds.
\<close>

theorem get_head_no_body:
  assumes "req_method request = GET \<or> req_method request = HEAD"
  shows "fst (executeProxyRequest rt request) = [(req_url request, fetchOptions request)]
         \<and> ri_body (fetchOptions request) = None"
  using assms
  by (auto simp: executeProxyRequest_def try_block_def fetchOptions_def Let_def
           split: sum.splits option.splits prod.splits)

theorem get_head_no_body_witness:
  "req_method sample_request = GET \<and> req_body sample_request = Some ''payload''
   \<and> fst (executeProxyRequest sample_runtime sample_request)
       = [(''https://example.com'',
           \<lparr>ri_method = GET, ri_headers = [], ri_signal = Some 5000, ri_body = None\<rparr>)]"
proof -
  have h: "req_method sample_request = GET \<or> req_method sample_request = HEAD"
    by (simp add: sample_request_def)
  show ?thesis
    using get_head_no_body [OF h, of sample_runtime]
    by (simp add: sample_request_def fetchOptions_def)
qed


lemma executeProxyRequest_cases:
  "executeProxyRequest rt request =
     ([(req_url request, fetchOptions request)],
      Inr (case rt_fetch rt (req_url request) (fetchOptions request) of
             Inl e \<Rightarrow> catch_block rt (rt_now rt 0) None e
           | Inr response \<Rightarrow>
               (case readResponseBody (rt_decode rt) response of
                  Inl e \<Rightarrow> catch_block rt (rt_now rt 0) (Some (rt_now rt 1)) e
                | Inr r \<Rightarrow> projr (snd (snd (try_block rt request (rt_now rt 0)))))))"
  by (simp add: executeProxyRequest_def try_block_def Let_def split: sum.splits)

lemma try_block_success:
  assumes "rt_fetch rt (req_url request) (fetchOptions request) = Inr response"
    and "readResponseBody (rt_decode rt) response = Inr r"
  shows "pr_status (projr (snd (snd (try_block rt request t0)))) = rsp_status response"
    and "pr_error (projr (snd (snd (try_block rt request t0)))) = None"
  using assms by (simp_all add: try_block_def Let_def)

lemma catch_block_fields:
  "pr_status (catch_block rt t0 fb e) = 0"
  "pr_headers (catch_block rt t0 fb e) = Map.empty"
  "pr_body (catch_block rt t0 fb e) = []"
  "pr_error (catch_block rt t0 fb e) = Some (categorizeError e)"
  by (simp_all add: catch_block_def Let_def)

text \<open>
  Claim C1. For every request, \<open>executeProxyRequest\<close> returns a result. A call whose
  fetch and body read succeed carries the status of the response and no error; a call
  whose fetch or body read fails carries the status \<open>0\<close> and the classified error. So
  an error implies the status \<open>0\<close>, and the result has an error exactly when its status
  is \<open>0\<close> as soon as \<open>fetch\<close> resolves only with a response that has an HTTP status (a
  status other than \<open>0\<close>).
\<close>

theorem error_iff_status_zero:
  "\<exists>calls res. executeProxyRequest rt request = (calls, Inr res)
     \<and> (pr_error res \<noteq> None \<longrightarrow> pr_status res = 0)
     \<and> (resolves_with_http_status (rt_fetch rt (req_url request) (fetchOptions request))
          \<longrightarrow> (pr_error res \<noteq> None \<longleftrightarrow> pr_status res = 0))
     \<and> (\<forall>response r.
           rt_fetch rt (req_url request) (fetchOptions request) = Inr response
           \<and> readResponseBody (rt_decode rt) response = Inr r \<longrightarrow>
           pr_status res = rsp_status response \<and> pr_error res = None)
     \<and> (\<forall>e. transport_failure rt request = Some e \<longrightarrow>
           pr_status res = 0 \<and> pr_error res = Some (categorizeError e))"
proof (cases "rt_fetch rt (req_url request) (fetchOptions request)")
  case (Inl e)
  then show ?thesis
    by (simp add: executeProxyRequest_cases transport_failure_def catch_block_fields)
next
  case (Inr response)
  show ?thesis
  proof (cases "readResponseBody (rt_decode rt) response")
    case (Inl e)
    then show ?thesis using Inr
      by (simp add: executeProxyRequest_cases transport_failure_def catch_block_fields)
  next
    case r: (Inr r)
    then show ?thesis using Inr try_block_success [OF Inr r]
      by (simp add: executeProxyRequest_cases transport_failure_def
          resolves_with_http_status_def)
  qed
qed

lemma sample_fetch:
  "rt_fetch sample_runtime u opts = Inr sample_response"
  by (simp add: sample_runtime_def)

lemma sample_declared: "declared_size sample_response = None"
  by (simp add: declared_size_def sample_response_def headers_get_def toLowerCase_def
      lower_char_def)

lemma sample_read:
  "readResponseBody d sample_response
     = Inr \<lparr>br_body = d [104, 105], br_truncated = False, br_size = 2\<rparr>"
  by (simp add: readResponseBody_def readBodyBytes_def sample_declared over_limit_def
      arrayBuffer_def, simp add: sample_response_def MAX_BODY_SIZE_def)

theorem error_iff_status_zero_witness:
  "resolves_with_http_status
     (rt_fetch sample_runtime (req_url sample_request) (fetchOptions sample_request))
   \<and> transport_failure sample_runtime sample_request = None
   \<and> \<not> isl (snd (executeProxyRequest sample_runtime sample_request))
   \<and> pr_status (projr (snd (executeProxyRequest sample_runtime sample_request))) = 200
   \<and> pr_error (projr (snd (executeProxyRequest sample_runtime sample_request))) = None"
proof -
  have h: "resolves_with_http_status
     (rt_fetch sample_runtime (req_url sample_request) (fetchOptions sample_request))"
    by (simp add: sample_fetch resolves_with_http_status_def sample_response_def)
  have t: "transport_failure sample_runtime sample_request = None"
    by (simp add: transport_failure_def sample_fetch sample_read)
  have s: "rsp_status sample_response = 200" by (simp add: sample_response_def)
  have d: "rt_decode sample_runtime = latin1_decode" by (simp add: sample_runtime_def)
  show ?thesis
    using h t s error_iff_status_zero [of sample_runtime sample_request]
    by (auto simp: sample_fetch sample_read d)
qed

text \<open>
  Claim C2. \<open>executeProxyRequest\<close> never throws: for every request and every behaviour
  of the platform its promise resolves with a result. When the fetch or the body read
  fails, the result has the status \<open>0\<close>, no headers, the empty body and the error the
  classifier gives for the failure; the \<open>AbortError\<close> that the timeout raises is
  classified as a timeout.
\<close>

theorem never_throws:
  "\<exists>calls res. executeProxyRequest rt request = (calls, Inr res)
     \<and> (\<forall>e. transport_failure rt request = Some e \<longrightarrow>
           pr_status res = 0 \<and> pr_headers res = Map.empty \<and> pr_body res = []
           \<and> pr_error res = Some (categorizeError e)
           \<and> (\<forall>m. e = ErrorInstance ''AbortError'' m \<longrightarrow>
                pr_error res = Some \<lparr>re_type = Timeout, re_message = ''Request timed out''\<rparr>))"
proof (cases "rt_fetch rt (req_url request) (fetchOptions request)")
  case (Inl e)
  then show ?thesis
    by (cases e)
       (auto simp: executeProxyRequest_cases transport_failure_def catch_block_fields
          categorizeError_def)
next
  case (Inr response)
  show ?thesis
  proof (cases "readResponseBody (rt_decode rt) response")
    case (Inl e)
    then show ?thesis using Inr
      by (cases e)
         (auto simp: executeProxyRequest_cases transport_failure_def catch_block_fields
            categorizeError_def)
  next
    case r: (Inr r)
    then show ?thesis using Inr
      by (simp add: executeProxyRequest_cases transport_failure_def)
  qed
qed

lemma broken_failure:
  "transport_failure broken_body_runtime sample_request
     = Some (ErrorInstance ''TypeError'' ''connection reset by peer'')"
proof -
  have d: "declared_size (sample_response
             \<lparr>rsp_body := Some (Chunk [104] (ReadError
                (ErrorInstance ''TypeError'' ''connection reset by peer'')))\<rparr>) = None"
    by (simp add: declared_size_def sample_response_def headers_get_def content_length_lower)
  show ?thesis
    by (simp add: transport_failure_def broken_body_runtime_def readResponseBody_def
        readBodyBytes_def d over_limit_def arrayBuffer_def)
qed

lemma reset_classified:
  "categorizeError (ErrorInstance ''TypeError'' ''connection reset by peer'')
     = \<lparr>re_type = Network, re_message = ''Network error: connection reset by peer''\<rparr>"
  by code_simp

theorem never_throws_witness:
  "transport_failure timeout_runtime sample_request
     = Some (ErrorInstance ''AbortError'' ''The signal has been aborted'')
   \<and> \<not> isl (snd (executeProxyRequest timeout_runtime sample_request))
   \<and> pr_status (projr (snd (executeProxyRequest timeout_runtime sample_request))) = 0
   \<and> pr_body (projr (snd (executeProxyRequest timeout_runtime sample_request))) = []
   \<and> pr_error (projr (snd (executeProxyRequest timeout_runtime sample_request)))
       = Some \<lparr>re_type = Timeout, re_message = ''Request timed out''\<rparr>
   \<and> transport_failure broken_body_runtime sample_request
       = Some (ErrorInstance ''TypeError'' ''connection reset by peer'')
   \<and> pr_status (projr (snd (executeProxyRequest broken_body_runtime sample_request))) = 0
   \<and> pr_error (projr (snd (executeProxyRequest broken_body_runtime sample_request)))
       = Some \<lparr>re_type = Network, re_message = ''Network error: connection reset by peer''\<rparr>"
proof -
  have t: "transport_failure timeout_runtime sample_request
     = Some (ErrorInstance ''AbortError'' ''The signal has been aborted'')"
    by (simp add: transport_failure_def timeout_runtime_def)
  show ?thesis
    using t broken_failure reset_classified
      never_throws [of timeout_runtime sample_request]
      never_throws [of broken_body_runtime sample_request]
    by auto
qed


section \<open>Properties of the proxy boundary\<close>

lemma executeProxyRequest_calls:
  "fst (executeProxyRequest rt request) \<noteq> []"
  by (simp add: executeProxyRequest_cases)

lemma bad_method_None: "bad_method j \<Longrightarrow> HttpMethodSchema (field j ''method'') = None"
proof (cases "field j ''method''")
  case None
  then show ?thesis by (simp add: HttpMethodSchema_def)
next
  case (Some v)
  assume b: "bad_method j"
  show ?thesis
  proof (cases v)
    case (JString s)
    then show ?thesis using b Some
      by (simp add: bad_method_def HttpMethodSchema_def)
  qed (simp_all add: HttpMethodSchema_def Some)
qed

lemma bad_url_None: "bad_url is_url j \<Longrightarrow> url_schema is_url (field j ''url'') = None"
proof (cases "field j ''url''")
  case None
  then show ?thesis by (simp add: url_schema_def)
next
  case (Some v)
  assume "bad_url is_url j"
  then show ?thesis using Some by (cases v) (simp_all add: bad_url_def url_schema_def)
qed

lemma bad_timeout_None: "bad_timeout j \<Longrightarrow> timeout_schema (field j ''timeout'') = None"
  by (auto simp: bad_timeout_def timeout_schema_def split: option.splits json.splits)

lemma safeParse_Inl:
  assumes "m = None \<or> u = None \<or> t = None"
  shows "\<exists>issues. (case (m, u, h, b, t) of
           (Some m', Some u', Some h', Some b', Some t') \<Rightarrow>
             Inr \<lparr>req_method = m', req_url = u', req_headers = Some h', req_body = b',
                  req_timeout = t'\<rparr>
         | (m, u, h, b, t) \<Rightarrow>
             Inl ((if m = None then [''method''] else [])
                  @ (if u = None then [''url''] else [])
                  @ (if h = None then [''headers''] else [])
                  @ (if b = None then [''body''] else [])
                  @ (if t = None then [''timeout''] else []))) = Inl issues \<and> issues \<noteq> []"
proof (cases m)
  case None
  then show ?thesis by simp
next
  case m: (Some m')
  show ?thesis
  proof (cases u)
    case None
    then show ?thesis using m by simp
  next
    case u: (Some u')
    then have "t = None" using assms m by simp
    then show ?thesis using m u by (cases h; cases b) simp_all
  qed
qed

lemma safeParse_rejects:
  assumes "bad_method j \<or> bad_url is_url j \<or> bad_timeout j"
  shows "\<exists>issues. safeParse is_url j = Inl issues \<and> issues \<noteq> []"
proof (cases "is_object j")
  case False
  then show ?thesis by (simp add: safeParse_def)
next
  case True
  have "HttpMethodSchema (field j ''method'') = None \<or> url_schema is_url (field j ''url'') = None
        \<or> timeout_schema (field j ''timeout'') = None"
    using assms by (auto dest: bad_method_None bad_url_None bad_timeout_None)
  from safeParse_Inl [OF this] show ?thesis using True
    unfolding safeParse_def by simp
qed

text \<open>
  Claim C5. A payload that is malformed (its method is not one of the seven verbs, its
  url is not a string the URL parser accepts, or its timeout is a number outside
  \<open>[0, 300000]\<close>) is answered with HTTP 400 and the error \<open>validation_error\<close>. No
  outbound call is made, so \<open>executeProxyRequest\<close>, which always makes one, has not
  run; and the reply is an error body, not a proxy result.
\<close>

theorem malformed_rejected:
  assumes "bad_method j \<or> bad_url (rt_is_url rt) j \<or> bad_timeout j"
  shows "\<exists>issues. issues \<noteq> []
           \<and> proxy_post rt (Inr j)
               = ([], \<lparr>hr_status = 400,
                        hr_body = ErrorBody ''validation_error'' ''Invalid request body''
                                    (Some issues)\<rparr>)
           \<and> (\<forall>response. hr_body (snd (proxy_post rt (Inr j))) \<noteq> ResultBody response)
           \<and> (\<forall>request. fst (proxy_post rt (Inr j)) \<noteq> fst (executeProxyRequest rt request))"
proof -
  obtain issues where i: "safeParse (rt_is_url rt) j = Inl issues" "issues \<noteq> []"
    using safeParse_rejects [OF assms] by blast
  moreover have "[] \<noteq> fst (executeProxyRequest rt request)" for request
    using executeProxyRequest_calls [of rt request] by simp
  ultimately show ?thesis
    by (simp add: proxy_post_def)
qed

theorem malformed_rejected_witness:
  "bad_timeout late_payload \<and> \<not> bad_method late_payload
   \<and> \<not> bad_url (rt_is_url sample_runtime) late_payload
   \<and> proxy_post sample_runtime (Inr late_payload)
       = ([], \<lparr>hr_status = 400,
                hr_body = ErrorBody ''validation_error'' ''Invalid request body''
                            (Some [''timeout''])\<rparr>)"
proof -
  have h: "bad_timeout late_payload"
    by (simp add: bad_timeout_def late_payload_def field_def)
  have m: "\<not> bad_method late_payload"
    by (simp add: bad_method_def late_payload_def field_def)
  have u: "\<not> bad_url (rt_is_url sample_runtime) late_payload"
    by (simp add: bad_url_def late_payload_def field_def sample_runtime_def http_scheme_def)
  have p: "safeParse (rt_is_url sample_runtime) late_payload = Inl [''timeout'']"
    by (simp add: safeParse_def is_object_def late_payload_def field_def HttpMethodSchema_def
        url_schema_def headers_schema_def body_schema_def timeout_schema_def
        sample_runtime_def http_scheme_def)
  show ?thesis
    using h m u p malformed_rejected [of late_payload sample_runtime]
    by (auto simp: proxy_post_def)
qed

section \<open>Properties of \<open>headersToRecord\<close>\<close>

lemma headersToRecord_step_apply:
  "headersToRecord_step r h x = (if sets_key x h then Some (hd_value h) else r x)"
  by (auto simp: headersToRecord_step_def record_set_def sets_key_def)

lemma foldl_headersToRecord_step:
  "foldl headersToRecord_step r hs x =
     (case find (sets_key x) (rev hs) of None \<Rightarrow> r x | Some h \<Rightarrow> Some (hd_value h))"
proof (induction hs arbitrary: r rule: rev_induct)
  case Nil
  then show ?case by simp
next
  case (snoc h hs)
  have "foldl headersToRecord_step r (hs @ [h]) x
          = headersToRecord_step (foldl headersToRecord_step r hs) h x"
    by simp
  also have "\<dots> = (if sets_key x h then Some (hd_value h)
                     else foldl headersToRecord_step r hs x)"
    by (rule headersToRecord_step_apply)
  finally show ?case
    using snoc.IH [of r] by simp
qed

text \<open>
  Claim C9, as stated, fails: the keys of the record are compared as they are written.
  The rows \<open>Accept: a\<close> and \<open>accept: b\<close>, whose keys differ only in letter case, give
  two entries of the record, not one.
\<close>

theorem headers_keys_case_sensitive:
  "toLowerCase ''Accept'' = toLowerCase ''accept''
   \<and> headersToRecord mixed_case_rows ''Accept'' = Some ''a''
   \<and> headersToRecord mixed_case_rows ''accept'' = Some ''b''"
proof -
  have t: "trim ''Accept'' \<noteq> []" "trim ''accept'' \<noteq> []"
    by (simp_all add: trim_def is_space_def)
  have l: "toLowerCase ''Accept'' = toLowerCase ''accept''"
    by code_simp
  have a: "headersToRecord mixed_case_rows ''Accept'' = Some ''a''"
    unfolding headersToRecord_def foldl_headersToRecord_step
    using t by (simp add: mixed_case_rows_def sets_key_def)
  have b: "headersToRecord mixed_case_rows ''accept'' = Some ''b''"
    unfolding headersToRecord_def foldl_headersToRecord_step
    using t by (simp add: mixed_case_rows_def sets_key_def)
  show ?thesis using l a b by simp
qed

text \<open>
  Claim C9, amended. The record built from the rows compares keys exactly (letter case
  included) and duplicates are resolved last-wins: the entry under a key is the value
  of the last enabled row with a non-blank key that is exactly this key, and there is
  no entry when there is no such row. (A row whose key is \<open>__proto__\<close> creates no entry.)
\<close>

theorem headersToRecord_last_wins:
  "headersToRecord hs k = map_option hd_value (find (sets_key k) (rev hs))"
  unfolding headersToRecord_def foldl_headersToRecord_step
  by (simp split: option.splits)

section \<open>Properties of \<open>setActiveEnvironment\<close>\<close>

lemma modify_all_inactive_keys: "active_keys (modify_all_inactive t) = {}"
  by (auto simp: active_keys_def modify_all_inactive_def)

lemma dom_modify_all_inactive: "dom (modify_all_inactive t) = dom t"
  by (auto simp: modify_all_inactive_def dom_def)

lemma active_keys_update_active:
  "active_keys (update_active i t) = (if i \<in> dom t then insert i (active_keys t) else active_keys t)"
  by (auto simp: active_keys_def update_active_def split: option.splits if_splits)

lemma dom_update_active: "dom (update_active i t) = dom t"
  by (auto simp: update_active_def split: option.splits)

lemma active_keys_setActiveEnvironment:
  "active_keys (setActiveEnvironment eid t) =
     (case eid of None \<Rightarrow> {} | Some i \<Rightarrow> if i \<noteq> [] \<and> i \<in> dom t then {i} else {})"
  by (simp add: setActiveEnvironment_def Let_def active_keys_update_active
      modify_all_inactive_keys dom_modify_all_inactive split: option.splits)

lemma dom_setActiveEnvironment: "dom (setActiveEnvironment eid t) = dom t"
  by (simp add: setActiveEnvironment_def Let_def dom_update_active dom_modify_all_inactive
      split: option.splits)

lemma distinct_filter_le_1:
  "distinct (map f xs) \<Longrightarrow> length (filter (\<lambda>x. f x = a) xs) \<le> 1"
proof (induction xs)
  case Nil
  then show ?case by simp
next
  case (Cons x xs)
  show ?case
  proof (cases "f x = a")
    case True
    then have "a \<notin> f ` set xs" using Cons.prems by auto
    then have "filter (\<lambda>x. f x = a) xs = []" by (auto simp: filter_empty_conv)
    then show ?thesis using True by simp
  next
    case False
    then show ?thesis using Cons by simp
  qed
qed

lemma active_envs_map:
  "active_envs (map (\<lambda>env. env\<lparr>env_isActive := (Some (env_id env) = eid)\<rparr>) es)
     = map (\<lambda>env. env\<lparr>env_isActive := True\<rparr>) (filter (\<lambda>env. Some (env_id env) = eid) es)"
  by (induction es) (auto simp: active_envs_def)

lemma active_envs_le_1:
  assumes "distinct (map env_id es)"
  shows "length (active_envs (map (\<lambda>env. env\<lparr>env_isActive := (Some (env_id env) = eid)\<rparr>) es)) \<le> 1"
proof -
  have "length (filter (\<lambda>env. Some (env_id env) = eid) es) \<le> 1"
  proof (cases eid)
    case None
    then show ?thesis by simp
  next
    case (Some i)
    then show ?thesis using distinct_filter_le_1 [OF assms, of i] by simp
  qed
  then show ?thesis
    unfolding active_envs_map length_map .
qed

text \<open>
  Claim C10. After \<open>setActiveEnvironment\<close> at most one row of the table is active,
  whatever rows were active before: only the row whose key was passed can be active,
  and it is when it exists (and the key is not the empty string); \<open>null\<close> leaves no row
  active; no row is added or removed. The store action commits the same table and marks
  in its list exactly the environments whose id was passed, which is at most one when
  the ids of the list are distinct.
\<close>

theorem one_active_environment:
  "card (active_keys (setActiveEnvironment eid t)) \<le> 1
   \<and> active_keys (setActiveEnvironment eid t) \<subseteq> (case eid of None \<Rightarrow> {} | Some i \<Rightarrow> {i})
   \<and> (\<forall>i. eid = Some i \<and> i \<noteq> [] \<and> i \<in> dom t \<longrightarrow>
          active_keys (setActiveEnvironment eid t) = {i})
   \<and> dom (setActiveEnvironment eid t) = dom t
   \<and> fst (store_setActiveEnvironment None eid (t, s)) = Inr ()
   \<and> fst (snd (store_setActiveEnvironment None eid (t, s))) = setActiveEnvironment eid t
   \<and> (\<forall>e \<in> set (environments (snd (snd (store_setActiveEnvironment None eid (t, s))))).
          env_isActive e \<longleftrightarrow> Some (env_id e) = eid)
   \<and> (distinct (map env_id (environments s)) \<longrightarrow>
          length (active_envs (environments (snd (snd
            (store_setActiveEnvironment None eid (t, s)))))) \<le> 1)"
proof -
  have e: "environments (snd (snd (store_setActiveEnvironment None eid (t, s))))
             = map (\<lambda>env. env\<lparr>env_isActive := (Some (env_id env) = eid)\<rparr>) (environments s)"
    by (simp add: store_setActiveEnvironment_def Let_def)
  have c: "card (active_keys (setActiveEnvironment eid t)) \<le> 1"
    by (simp add: active_keys_setActiveEnvironment split: option.splits)
  have s1: "active_keys (setActiveEnvironment eid t) \<subseteq> (case eid of None \<Rightarrow> {} | Some i \<Rightarrow> {i})"
    by (simp add: active_keys_setActiveEnvironment split: option.splits)
  have s2: "\<forall>i. eid = Some i \<and> i \<noteq> [] \<and> i \<in> dom t \<longrightarrow>
          active_keys (setActiveEnvironment eid t) = {i}"
    by (simp add: active_keys_setActiveEnvironment)
  have r: "fst (store_setActiveEnvironment None eid (t, s)) = Inr ()"
     "fst (snd (store_setActiveEnvironment None eid (t, s))) = setActiveEnvironment eid t"
    by (simp_all add: store_setActiveEnvironment_def Let_def)
  have a: "\<forall>e \<in> set (environments (snd (snd (store_setActiveEnvironment None eid (t, s))))).
          env_isActive e \<longleftrightarrow> Some (env_id e) = eid"
    unfolding e by auto
  have l: "distinct (map env_id (environments s)) \<longrightarrow>
          length (active_envs (environments (snd (snd
            (store_setActiveEnvironment None eid (t, s)))))) \<le> 1"
    unfolding e using active_envs_le_1 by blast
  show ?thesis using c s1 s2 dom_setActiveEnvironment r a l by blast
qed

theorem one_active_environment_witness:
  "sample_table ''a'' = Some (sample_env ''a'' True)
   \<and> sample_table ''b'' = Some (sample_env ''b'' True)
   \<and> ''b'' \<in> dom sample_table
   \<and> active_keys (setActiveEnvironment (Some ''b'') sample_table) = {''b''}
   \<and> distinct (map env_id (environments sample_state))
   \<and> length (active_envs (environments (snd (snd
        (store_setActiveEnvironment None (Some ''b'') (sample_table, sample_state)))))) \<le> 1"
proof -
  have a: "sample_table ''a'' = Some (sample_env ''a'' True)"
    and b: "sample_table ''b'' = Some (sample_env ''b'' True)"
    by (simp_all add: sample_table_def)
  have d: "''b'' \<in> dom sample_table" using b by blast
  have i: "distinct (map env_id (environments sample_state))"
    by (simp add: sample_state_def sample_env_def)
  show ?thesis
    using a b d i one_active_environment [of "Some ''b''" sample_table sample_state]
    by simp
qed

section \<open>Properties of the Change Log\<close>

lemma find_distinct_id:
  assumes "distinct (map cr_id entries)" and "x \<in> set entries" and "cr_id x = i"
  shows "find (\<lambda>y. cr_id y = i) entries = Some x"
  using assms
proof (induction entries)
  case Nil
  then show ?case by simp
next
  case (Cons y ys)
  then show ?case by (auto simp: image_iff)
qed

lemma find_append_self:
  "find (\<lambda>x. cr_id x = cr_id r) entries = None \<Longrightarrow>
     find (\<lambda>x. cr_id x = cr_id r) (entries @ [r]) = Some r"
  by (induction entries) (auto split: if_splits)

lemma filter_fresh:
  "find (\<lambda>x. cr_id x = i) entries = None \<Longrightarrow> filter (\<lambda>x. cr_id x = i) entries = []"
  by (auto simp: find_None_iff filter_empty_conv)

lemma filter_distinct_one:
  assumes "distinct (map cr_id entries)" and "x \<in> set entries"
  shows "length (filter (\<lambda>y. cr_id y = cr_id x) entries) = 1"
  using assms
proof (induction entries)
  case Nil
  then show ?case by simp
next
  case (Cons y ys)
  show ?case
  proof (cases "x = y")
    case True
    then have "cr_id y \<notin> cr_id ` set ys" using Cons.prems by simp
    then have "filter (\<lambda>z. cr_id z = cr_id y) ys = []"
      by (auto simp: filter_empty_conv image_iff)
    then show ?thesis using True by simp
  next
    case False
    then have "x \<in> set ys" using Cons.prems by simp
    moreover have "cr_id y \<noteq> cr_id x" using Cons.prems \<open>x \<in> set ys\<close> by auto
    ultimately show ?thesis using Cons by simp
  qed
qed

text \<open>
  Claim C6. On a log whose ids are distinct, \<open>append\<close> keeps the ids distinct and fails
  exactly when the log holds a record with the same id and a different content. When
  an append succeeds, appending the same record again succeeds too and changes nothing,
  and the log then holds exactly one record with this id, the record itself.
\<close>

theorem append_idempotent:
  assumes "distinct (map cr_id entries)"
  shows "distinct (map cr_id (snd (append_change r entries)))
     \<and> (succeeded (fst (append_change r entries))
          \<longleftrightarrow> \<not> (\<exists>x \<in> set entries. cr_id x = cr_id r \<and> x \<noteq> r))
     \<and> (\<not> succeeded (fst (append_change r entries)) \<longrightarrow> snd (append_change r entries) = entries)
     \<and> (succeeded (fst (append_change r entries)) \<longrightarrow>
          succeeded (fst (append_change r (snd (append_change r entries))))
          \<and> snd (append_change r (snd (append_change r entries))) = snd (append_change r entries)
          \<and> length (filter (\<lambda>x. cr_id x = cr_id r)
               (snd (append_change r (snd (append_change r entries))))) = 1
          \<and> r \<in> set (snd (append_change r (snd (append_change r entries)))))"
proof (cases "find (\<lambda>x. cr_id x = cr_id r) entries")
  case None
  then have fresh: "\<forall>x \<in> set entries. cr_id x \<noteq> cr_id r"
    by (simp add: find_None_iff)
  have first: "append_change r entries = (Appended, entries @ [r])"
    using None by (simp add: append_change_def)
  have second: "append_change r (entries @ [r]) = (AlreadyPresent, entries @ [r])"
    using find_append_self [OF None] by (simp add: append_change_def)
  have d: "distinct (map cr_id (entries @ [r]))"
    using assms fresh by auto
  have one: "length (filter (\<lambda>x. cr_id x = cr_id r) (entries @ [r])) = 1"
    using filter_fresh [OF None] by simp
  show ?thesis
    using fresh d one by (simp add: first second succeeded_def)
next
  case (Some x)
  then have x: "x \<in> set entries" "cr_id x = cr_id r"
    by (auto simp: find_Some_iff in_set_conv_nth)
  have uniq: "y = x" if "y \<in> set entries" "cr_id y = cr_id r" for y
    using find_distinct_id [OF assms that] Some by simp
  show ?thesis
  proof (cases "x = r")
    case True
    have first: "append_change r entries = (AlreadyPresent, entries)"
      using Some True by (simp add: append_change_def)
    have one: "length (filter (\<lambda>y. cr_id y = cr_id r) entries) = 1"
      using filter_distinct_one [OF assms x(1)] True by simp
    show ?thesis
      using assms uniq True x one by (auto simp: first succeeded_def)
  next
    case False
    have first: "append_change r entries = (Conflict, entries)"
      using Some False by (simp add: append_change_def)
    show ?thesis
      using assms x False by (auto simp: first succeeded_def)
  qed
qed

theorem append_idempotent_witness:
  "distinct (map cr_id ([] :: ChangeRecord list))
   \<and> append_change sample_change [] = (Appended, [sample_change])
   \<and> append_change sample_change [sample_change] = (AlreadyPresent, [sample_change])
   \<and> succeeded Appended \<and> succeeded AlreadyPresent
   \<and> length (filter (\<lambda>x. cr_id x = cr_id sample_change)
        (snd (append_change sample_change (snd (append_change sample_change []))))) = 1"
proof -
  have h: "distinct (map cr_id ([] :: ChangeRecord list))" by simp
  have a: "append_change sample_change [] = (Appended, [sample_change])"
    by (simp add: append_change_def)
  have b: "append_change sample_change [sample_change] = (AlreadyPresent, [sample_change])"
    by (simp add: append_change_def)
  show ?thesis
    using h a b append_idempotent [OF h, of sample_change]
    by (simp add: succeeded_def)
qed

section \<open>Properties of the Bounded Body Reader\<close>

lemma copy_loop_take:
  assumes "offset \<le> length combined"
    and "length combined = min (offset + length (concat chunks)) MAX_BODY_SIZE"
  shows "copy_loop chunks combined offset
           = Inr (take offset combined @ take (length combined - offset) (concat chunks))"
  using assms
proof (induction chunks arbitrary: combined offset)
  case Nil
  then show ?case by simp
next
  case (Cons chunk chunks)
  define toCopy where "toCopy = min (length chunk) (MAX_BODY_SIZE - offset)"
  define combined' where
    "combined' = take offset combined @ take toCopy chunk @ drop (offset + toCopy) combined"
  have len: "length combined = min (offset + length chunk + length (concat chunks)) MAX_BODY_SIZE"
    using Cons.prems(2) by (simp add: add.assoc)
  have fits: "offset + toCopy \<le> length combined"
    using Cons.prems(1) len unfolding toCopy_def by auto
  have ltc: "length (take toCopy chunk) = toCopy"
    unfolding toCopy_def by simp
  have set: "array_set combined (take toCopy chunk) offset = Inr combined'"
    using fits ltc by (simp add: array_set_def combined'_def)
  have len': "length combined' = length combined"
    using fits ltc Cons.prems(1) by (simp add: combined'_def)
  have unfold: "copy_loop (chunk # chunks) combined offset
      = (if offset + toCopy \<ge> MAX_BODY_SIZE then Inr combined'
         else copy_loop chunks combined' (offset + toCopy))"
  proof -
    have "copy_loop (chunk # chunks) combined offset
      = (case array_set combined (take toCopy chunk) offset of
           Inl e \<Rightarrow> Inl e
         | Inr c' \<Rightarrow> if offset + toCopy \<ge> MAX_BODY_SIZE then Inr c'
                      else copy_loop chunks c' (offset + toCopy))"
      by (simp only: copy_loop.simps Let_def toCopy_def)
    then show ?thesis by (simp only: set sum.case)
  qed
  show ?case
  proof (cases "offset + toCopy \<ge> MAX_BODY_SIZE")
    case True
    then have full: "length combined = offset + toCopy"
      using fits len by auto
    then have "toCopy = length combined - offset" by simp
    moreover have "take toCopy (chunk @ concat chunks) = take toCopy chunk"
      unfolding toCopy_def by simp
    moreover have "copy_loop (chunk # chunks) combined offset = Inr combined'"
      using True by (simp only: unfold if_True)
    moreover have "combined' = take offset combined @ take toCopy chunk"
      using full by (simp add: combined'_def)
    ultimately show ?thesis by simp
  next
    case False
    then have whole: "toCopy = length chunk"
      unfolding toCopy_def by auto
    have step: "copy_loop (chunk # chunks) combined offset
                  = copy_loop chunks combined' (offset + toCopy)"
      using False by (simp only: unfold if_False)
    have p1: "offset + toCopy \<le> length combined'"
      using fits len' by simp
    have p2: "length combined' = min (offset + toCopy + length (concat chunks)) MAX_BODY_SIZE"
      using len len' whole by simp
    have ih: "copy_loop chunks combined' (offset + toCopy)
                = Inr (take (offset + toCopy) combined'
                       @ take (length combined' - (offset + toCopy)) (concat chunks))"
      by (rule Cons.IH [OF p1 p2])
    have t: "take (offset + toCopy) combined' = take offset combined @ chunk"
      using Cons.prems(1) whole by (simp add: combined'_def)
    have "take (length combined - offset) (chunk @ concat chunks)
            = chunk @ take (length combined - (offset + toCopy)) (concat chunks)"
      using fits whole by simp
    then show ?thesis
      using step ih t len' by simp
  qed
qed

lemma copy_loop_fresh:
  "copy_loop chunks (replicate (min (length (concat chunks)) MAX_BODY_SIZE) 0) 0
     = Inr (take MAX_BODY_SIZE (concat chunks))"
proof -
  have "copy_loop chunks (replicate (min (length (concat chunks)) MAX_BODY_SIZE) 0) 0
          = Inr (take 0 (replicate (min (length (concat chunks)) MAX_BODY_SIZE) 0)
                 @ take (length (replicate (min (length (concat chunks)) MAX_BODY_SIZE) (0::byte)) - 0)
                     (concat chunks))"
    by (rule copy_loop_take) simp_all
  then show ?thesis by (simp add: min_def)
qed

lemma read_loop_spec:
  assumes "read_loop s chunks totalSize = Inr (chunks', totalSize')"
    and "totalSize = length (concat chunks)"
  shows "totalSize' = length (concat chunks')
         \<and> (\<exists>rest. concat chunks @ stream_bytes s = concat chunks' @ rest
                    \<and> (totalSize' < MAX_BODY_SIZE \<longrightarrow> rest = []))"
  using assms
proof (induction s chunks totalSize rule: read_loop.induct)
  case (1 chunks totalSize)
  then show ?case by auto
next
  case (2 e chunks totalSize)
  then show ?case by (auto split: if_splits)
next
  case (3 v rest chunks totalSize)
  show ?case
  proof (cases "totalSize < MAX_BODY_SIZE")
    case True
    then have "read_loop rest (chunks @ [v]) (totalSize + length v) = Inr (chunks', totalSize')"
      using "3.prems"(1) by simp
    moreover have "totalSize + length v = length (concat (chunks @ [v]))"
      using "3.prems"(2) by simp
    ultimately have "totalSize' = length (concat chunks')
         \<and> (\<exists>r. concat (chunks @ [v]) @ stream_bytes rest = concat chunks' @ r
                    \<and> (totalSize' < MAX_BODY_SIZE \<longrightarrow> r = []))"
      using "3.IH" [OF True] by blast
    then show ?thesis by auto
  next
    case False
    then have "chunks' = chunks" "totalSize' = totalSize"
      using "3.prems"(1) by simp_all
    then show ?thesis using False "3.prems"(2) by simp
  qed
qed

lemma read_loop_take:
  assumes "read_loop s [] 0 = Inr (chunks, totalSize)"
  shows "totalSize = length (concat chunks)"
    and "take MAX_BODY_SIZE (concat chunks) = take MAX_BODY_SIZE (stream_bytes s)"
    and "totalSize \<le> length (stream_bytes s)"
    and "totalSize < MAX_BODY_SIZE \<Longrightarrow> concat chunks = stream_bytes s"
proof -
  from read_loop_spec [OF assms] obtain rest where
    t: "totalSize = length (concat chunks)"
    and r: "stream_bytes s = concat chunks @ rest"
    and e: "totalSize < MAX_BODY_SIZE \<longrightarrow> rest = []"
    by auto
  show "totalSize = length (concat chunks)" by (rule t)
  show "take MAX_BODY_SIZE (concat chunks) = take MAX_BODY_SIZE (stream_bytes s)"
    using t r e by (cases "totalSize < MAX_BODY_SIZE") simp_all
  show "totalSize \<le> length (stream_bytes s)" using t r by simp
  show "concat chunks = stream_bytes s" if "totalSize < MAX_BODY_SIZE"
    using that r e by simp
qed

lemma arrayBuffer_stream_bytes:
  "arrayBuffer_stream s = Inr buf \<Longrightarrow> buf = stream_bytes s"
  by (induction s arbitrary: buf) (auto split: sum.splits)

lemma MAX_BODY_SIZE_value: "MAX_BODY_SIZE = 10485760"
  by (simp add: MAX_BODY_SIZE_def)

lemma readBodyBytes_short:
  assumes "over_limit (declared_size response)"
    and "rsp_body response = Some s"
    and "read_loop s [] 0 = Inr (chunks, totalSize)"
  shows "readBodyBytes response
           = Inr \<lparr>bb_bytes = take MAX_BODY_SIZE (stream_bytes s), bb_truncated = True,
                  bb_size = declared_length response\<rparr>"
proof -
  have c: "copy_loop chunks (replicate (min totalSize MAX_BODY_SIZE) 0) 0
             = Inr (take MAX_BODY_SIZE (stream_bytes s))"
    using copy_loop_fresh [of chunks] read_loop_take(1,2) [OF assms(3)] by simp
  show ?thesis
    using assms c by (simp add: readBodyBytes_def declared_length_def)
qed

lemma readBodyBytes_short_cases:
  assumes "over_limit (declared_size response)"
    and "readBodyBytes response = Inr b"
    and "bb_truncated b"
  shows "\<exists>s chunks totalSize. rsp_body response = Some s
           \<and> read_loop s [] 0 = Inr (chunks, totalSize)"
proof (cases "rsp_body response")
  case None
  then show ?thesis using assms by (auto simp: readBodyBytes_def)
next
  case (Some s)
  show ?thesis
  proof (cases "read_loop s [] 0")
    case (Inl e)
    then show ?thesis using assms Some by (simp add: readBodyBytes_def)
  next
    case (Inr p)
    then show ?thesis using Some by (cases p) simp
  qed
qed

lemma readBodyBytes_full:
  assumes "\<not> over_limit (declared_size response)"
    and "readBodyBytes response = Inr b"
    and "bb_truncated b"
  shows "\<exists>s. rsp_body response = Some s \<and> arrayBuffer_stream s = Inr (stream_bytes s)
           \<and> length (stream_bytes s) > MAX_BODY_SIZE
           \<and> b = \<lparr>bb_bytes = take MAX_BODY_SIZE (stream_bytes s), bb_truncated = True,
                    bb_size = int (length (stream_bytes s))\<rparr>"
proof (cases "rsp_body response")
  case None
  then show ?thesis using assms
    by (auto simp: readBodyBytes_def arrayBuffer_def Let_def)
next
  case (Some s)
  show ?thesis
  proof (cases "arrayBuffer_stream s")
    case (Inl e)
    then show ?thesis using assms Some by (simp add: readBodyBytes_def arrayBuffer_def)
  next
    case (Inr buf)
    then have "buf = stream_bytes s" by (rule arrayBuffer_stream_bytes)
    then show ?thesis using assms Some Inr
      by (auto simp: readBodyBytes_def arrayBuffer_def Let_def split: if_splits)
  qed
qed

lemma not_over_limit_declared:
  "\<not> over_limit (declared_size response) \<Longrightarrow> declared_length response \<le> int MAX_BODY_SIZE"
  by (auto simp: over_limit_def declared_length_def split: option.splits jsnum.splits)

lemma over_limit_declared:
  "over_limit (declared_size response) \<Longrightarrow> declared_length response > int MAX_BODY_SIZE"
  by (auto simp: over_limit_def declared_length_def split: option.splits jsnum.splits)

lemma readBodyBytes_truncated_bytes:
  assumes "readBodyBytes response = Inr b" and "bb_truncated b"
  shows "\<exists>s. rsp_body response = Some s
           \<and> bb_bytes b = take MAX_BODY_SIZE (stream_bytes s)
           \<and> length (bb_bytes b) = min MAX_BODY_SIZE (length (stream_bytes s))
           \<and> (\<not> over_limit (declared_size response) \<or> MAX_BODY_SIZE \<le> observed_size response
                \<longrightarrow> length (bb_bytes b) = MAX_BODY_SIZE)
           \<and> (observed_size response < MAX_BODY_SIZE
                \<longrightarrow> over_limit (declared_size response) \<and> bb_bytes b = stream_bytes s)"
proof (cases "over_limit (declared_size response)")
  case True
  from readBodyBytes_short_cases [OF True assms] obtain s chunks totalSize where
    s: "rsp_body response = Some s" and r: "read_loop s [] 0 = Inr (chunks, totalSize)"
    by blast
  have b: "b = \<lparr>bb_bytes = take MAX_BODY_SIZE (stream_bytes s), bb_truncated = True,
                 bb_size = declared_length response\<rparr>"
    using readBodyBytes_short [OF True s r] assms(1) by simp
  have o: "observed_size response = totalSize"
    using True s r by (simp add: observed_size_def)
  have le: "totalSize \<le> length (stream_bytes s)"
    by (rule read_loop_take(3) [OF r])
  have all: "totalSize < MAX_BODY_SIZE \<Longrightarrow> length (stream_bytes s) < MAX_BODY_SIZE"
    using read_loop_take(1,4) [OF r] by simp
  show ?thesis
    using True s b o le all by auto
next
  case False
  from readBodyBytes_full [OF False assms] obtain s where
    s: "rsp_body response = Some s" and gt: "length (stream_bytes s) > MAX_BODY_SIZE"
    and b: "b = \<lparr>bb_bytes = take MAX_BODY_SIZE (stream_bytes s), bb_truncated = True,
                   bb_size = int (length (stream_bytes s))\<rparr>"
    by blast
  have o: "observed_size response = length (stream_bytes s)"
    using False s by (simp add: observed_size_def)
  show ?thesis
    using False s b o gt by auto
qed

lemma readBodyBytes_truncated_size:
  assumes "readBodyBytes response = Inr b" and "bb_truncated b"
  shows "bb_size b = (if over_limit (declared_size response) then declared_length response
                      else int (observed_size response))
         \<and> bb_size b > int MAX_BODY_SIZE
         \<and> (int (observed_size response) \<le> declared_length response
              \<or> \<not> over_limit (declared_size response)
              \<longrightarrow> bb_size b = max (declared_length response) (int (observed_size response)))"
proof (cases "over_limit (declared_size response)")
  case True
  from readBodyBytes_short_cases [OF True assms] obtain s chunks totalSize where
    s: "rsp_body response = Some s" and r: "read_loop s [] 0 = Inr (chunks, totalSize)"
    by blast
  have b: "bb_size b = declared_length response"
    using readBodyBytes_short [OF True s r] assms(1) by auto
  show ?thesis
    using True b over_limit_declared [OF True] by auto
next
  case False
  from readBodyBytes_full [OF False assms] obtain s where
    s: "rsp_body response = Some s" and gt: "length (stream_bytes s) > MAX_BODY_SIZE"
    and b: "b = \<lparr>bb_bytes = take MAX_BODY_SIZE (stream_bytes s), bb_truncated = True,
                   bb_size = int (length (stream_bytes s))\<rparr>"
    by blast
  have o: "observed_size response = length (stream_bytes s)"
    using False s by (simp add: observed_size_def)
  show ?thesis
    using False b o gt not_over_limit_declared [OF False] by auto
qed

lemma readResponseBody_bytes:
  assumes "readResponseBody decode response = Inr r" and "br_truncated r"
  shows "\<exists>b. readBodyBytes response = Inr b \<and> bb_truncated b
           \<and> br_body r = decode (bb_bytes b) \<and> br_size r = bb_size b"
proof (cases "readBodyBytes response")
  case (Inl e)
  then show ?thesis using assms by (simp add: readResponseBody_def)
next
  case (Inr b)
  have t: "bb_truncated b" using assms Inr by (auto simp: readResponseBody_def)
  have "\<not> (over_limit (declared_size response) \<and> rsp_body response = None)"
  proof
    assume "over_limit (declared_size response) \<and> rsp_body response = None"
    then have "readBodyBytes response
                 = Inr \<lparr>bb_bytes = [], bb_truncated = False, bb_size = 0\<rparr>"
      by (simp add: readBodyBytes_def)
    then show False using Inr t by simp
  qed
  then show ?thesis using assms Inr t by (auto simp: readResponseBody_def)
qed

lemma parseInt_20000000: "parseInt ''20000000'' = Num 20000000"
  by (simp add: parseInt_def is_space_def is_digit_def digits_value_def)


lemma short_declared: "declared_size short_response = Some (Num 20000000)"
  by (simp add: declared_size_def headers_get_def content_length_lower short_response_def
      parseInt_20000000)


lemma large_declared: "declared_size large_response = None"
  by (simp add: declared_size_def headers_get_def content_length_lower large_response_def)

lemma short_read: 
  "readBodyBytes short_response
     = Inr \<lparr>bb_bytes = [1, 2, 3], bb_truncated = True, bb_size = 20000000\<rparr>"
proof -
  have o: "over_limit (declared_size short_response)"
    by (simp add: short_declared over_limit_def MAX_BODY_SIZE_value)
  have s: "rsp_body short_response = Some (Chunk [1, 2, 3] Done)"
    by (simp add: short_response_def)
  have r: "read_loop (Chunk [1, 2, 3] Done) [] 0 = Inr ([[1, 2, 3]], 3)"
    by (simp add: MAX_BODY_SIZE_value)
  show ?thesis
    using readBodyBytes_short [OF o s r]
    by (simp add: declared_length_def short_declared MAX_BODY_SIZE_value)
qed




lemma large_read:
  "readBodyBytes large_response
     = Inr \<lparr>bb_bytes = replicate 10485760 0, bb_truncated = True, bb_size = 15728640\<rparr>"
proof -
  have o: "\<not> over_limit (declared_size large_response)"
    by (simp add: large_declared over_limit_def)
  have a: "arrayBuffer large_response = Inr (replicate 15728640 0)"
    by (simp add: arrayBuffer_def large_response_def)
  show ?thesis
    using o a by (simp add: readBodyBytes_def MAX_BODY_SIZE_value)
qed

lemma readResponseBody_of_bytes:
  assumes "readBodyBytes response = Inr b" and "rsp_body response \<noteq> None"
  shows "readResponseBody decode response
           = Inr \<lparr>br_body = decode (bb_bytes b), br_truncated = bb_truncated b,
                  br_size = bb_size b\<rparr>"
  using assms by (auto simp: readResponseBody_def)

lemma short_body: "readResponseBody latin1_decode short_response
     = Inr \<lparr>br_body = latin1_decode [1, 2, 3], br_truncated = True, br_size = 20000000\<rparr>"
  using readResponseBody_of_bytes [OF short_read, of latin1_decode]
  by (simp add: short_response_def)


lemma large_body: "readResponseBody latin1_decode large_response
     = Inr \<lparr>br_body = latin1_decode (replicate 10485760 0), br_truncated = True,
            br_size = 15728640\<rparr>"
  using readResponseBody_of_bytes [OF large_read, of latin1_decode]
  by (simp add: large_response_def)

lemma full_path_exact:
  assumes "\<not> over_limit (declared_size response)"
    and "readResponseBody decode response = Inr r" and "br_truncated r"
  shows "\<exists>bytes. br_body r = decode bytes \<and> length bytes = MAX_BODY_SIZE
           \<and> br_size r > int MAX_BODY_SIZE"
proof -
  from readResponseBody_bytes [OF assms(2,3)] obtain b where
    b: "readBodyBytes response = Inr b" "bb_truncated b" "br_body r = decode (bb_bytes b)"
       "br_size r = bb_size b"
    by blast
  have "length (bb_bytes b) = MAX_BODY_SIZE"
    using readBodyBytes_truncated_bytes [OF b(1,2)] assms(1) by blast
  moreover have "bb_size b > int MAX_BODY_SIZE"
    using readBodyBytes_truncated_size [OF b(1,2)] by blast
  ultimately show ?thesis using b(3,4) by auto
qed

lemma plain_short_body:
  "readResponseBody latin1_decode plain_short_response
     = Inr \<lparr>br_body = latin1_decode [1, 2, 3], br_truncated = False, br_size = 3\<rparr>"
proof -
  have d: "declared_size plain_short_response = None"
    by (simp add: declared_size_def headers_get_def plain_short_response_def)
  show ?thesis
    by (simp add: readResponseBody_def readBodyBytes_def d over_limit_def arrayBuffer_def,
        simp add: plain_short_response_def MAX_BODY_SIZE_value)
qed

text \<open>
  Claim C3. A body returned with \<open>truncated = true\<close> should be exactly \<open>MAX_BODY_SIZE\<close>
  bytes long. The full-read path keeps this (\<open>full_path_exact\<close>), and the stream that
  ends after 3 bytes is returned there with \<open>truncated = false\<close> and the size 3
  (\<open>plain_short_body\<close>). The short-circuit path breaks it: for a response that declares
  20000000 bytes and whose stream ends after the same 3 bytes, \<open>readResponseBody\<close>
  returns \<open>truncated = true\<close> with a body decoded from 3 bytes, not from
  \<open>MAX_BODY_SIZE\<close> bytes.
\<close>

theorem truncated_body_short:
  "readResponseBody latin1_decode short_response
     = Inr \<lparr>br_body = latin1_decode [1, 2, 3], br_truncated = True, br_size = 20000000\<rparr>
   \<and> length [1, 2, 3 :: byte] \<noteq> MAX_BODY_SIZE"
  using short_body by (simp add: MAX_BODY_SIZE_value)




end
